theory Spec2Isabelle
  imports Complex_Main "HOL-Library.Sublist" "HOL-Library.Log_Nat"
begin

section \<open>JavaScript library operations used by the program\<close>

text \<open>
  \<^verbatim>\<open>Array.prototype.slice(start)\<close> with one argument. A negative \<open>start\<close> counts from the
  end (\<open>max (len + start) 0\<close>), a non-negative one is cut at the length. The program only
  ever calls \<^verbatim>\<open>xs.slice(-MAX_CHANNEL_EVENTS)\<close>; the argument \<open>-0\<close> is \<open>0\<close>, so a cap of zero
  copies the whole array.
\<close>

definition slice_from :: "int \<Rightarrow> 'a list \<Rightarrow> 'a list" where
  "slice_from start xs =
     (let len = int (length xs);
          k = (if start < 0 then max (len + start) 0 else min start len)
      in drop (nat k) xs)"

text \<open>
  A JavaScript \<^verbatim>\<open>Set\<close> iterates in insertion order and holds every value once: it is
  modelled as the list of its elements in insertion order. \<open>Set_new xs\<close> is
  \<^verbatim>\<open>new Set(xs)\<close>, \<open>x \<in> set s\<close> is \<^verbatim>\<open>s.has(x)\<close> and \<open>length s\<close> is \<^verbatim>\<open>s.size\<close>.
\<close>

type_synonym 'a js_set = "'a list"

definition Set_add :: "'a js_set \<Rightarrow> 'a \<Rightarrow> 'a js_set" where
  "Set_add s x = (if x \<in> set s then s else s @ [x])"

definition Set_new :: "'a list \<Rightarrow> 'a js_set" where
  "Set_new xs = foldl Set_add [] xs"


section \<open>App.tsx: data model\<close>

datatype status = Open | Closed

record geo =
  lat :: real
  lon :: real

record node =
  node_id :: string
  node_geo :: "geo option"

record channel =
  ch_id :: string
  ch_source :: string
  ch_target :: string
  ch_status :: status

record channel_event =
  ev_id :: string
  ev_ts :: int
  ev_status :: status

text \<open>
  One entry of the channels-geo response:
  \<^verbatim>\<open>[node1_pubkey, node1_alias, lon1, lat1, node2_pubkey, node2_alias, lon2, lat2]\<close>.
\<close>

record entry =
  node1_pubkey :: string
  node1_alias :: string
  lon1 :: real
  lat1 :: real
  node2_pubkey :: string
  node2_alias :: string
  lon2 :: real
  lat2 :: real

text \<open>
  The lines handed to \<^verbatim>\<open>log\<close>. The program formats them as strings behind a
  wall-clock prefix; the model keeps the message and its arguments.
\<close>

datatype log_msg =
    ApiFetching
  | ApiFailed nat
  | ApiReceived nat
  | ApiError
  | StateInitial nat nat
  | EventOpened string
  | EventClosed string
  | WarningTooMany nat int
  | StateUpdated nat nat

text \<open>
  The React state and refs of \<^verbatim>\<open>App\<close> that \<^verbatim>\<open>fetchChannelsGeo\<close> reads and writes.
\<close>

record app_state =
  nodes :: "node list"
  channels :: "channel list"
  lastUpdate :: "int option"
  logs :: "log_msg list"
  channelEvents :: "channel_event list"
  prevChannelsRef :: "string js_set"
  isFirstLoad :: bool

definition initialState :: app_state where
  "initialState =
     \<lparr>nodes = [], channels = [], lastUpdate = None, logs = [], channelEvents = [],
      prevChannelsRef = [], isFirstLoad = True\<rparr>"

text \<open>
  What one call of \<^verbatim>\<open>fetchChannelsGeo\<close> meets outside the program: the outcome of the
  request, and the readings of the wall clock. \<open>push_clock k\<close> is what \<^verbatim>\<open>Date.now()\<close>
  returns when the event with index \<open>k\<close> of the pass is pushed, \<open>update_date\<close> the
  \<^verbatim>\<open>new Date()\<close> stored as last update, \<open>admit_now\<close> the \<^verbatim>\<open>Date.now()\<close> read once inside the
  \<^verbatim>\<open>setChannelEvents\<close> updater.
\<close>

datatype response = Throws | NotOk nat | JsonOk "entry list"

record fetch_env =
  response :: response
  push_clock :: "nat \<Rightarrow> int"
  update_date :: int
  admit_now :: int


section \<open>App.tsx: operations\<close>

text \<open>\<^verbatim>\<open>log\<close> (named \<open>log_line\<close> here): the new line in front, the 199 most recent older lines kept.\<close>

definition log_line :: "log_msg \<Rightarrow> app_state \<Rightarrow> app_state" where
  "log_line msg st = st\<lparr>logs := msg # take 199 (logs st)\<rparr>"

text \<open>
  The loop over the response (lines 85-113). \<open>nodeMap\<close> is an object used as a dictionary:
  an association list in insertion order, which is the order of \<^verbatim>\<open>Object.values\<close> for keys
  that are not array indices (public keys are 66 hexadecimal digits).
\<close>

definition addNode :: "string \<Rightarrow> real \<Rightarrow> real \<Rightarrow> (string \<times> node) list \<Rightarrow> (string \<times> node) list" where
  "addNode pubkey lo la nodeMap =
     (if map_of nodeMap pubkey = None
      then nodeMap @ [(pubkey, \<lparr>node_id = pubkey, node_geo = Some \<lparr>lat = la, lon = lo\<rparr>\<rparr>)]
      else nodeMap)"

definition channelId :: "string \<Rightarrow> string \<Rightarrow> string" where
  "channelId a b = a @ ''-'' @ b"

fun buildGraph :: "entry list \<Rightarrow> (string \<times> node) list \<times> channel list \<Rightarrow>
    (string \<times> node) list \<times> channel list" where
  "buildGraph [] acc = acc"
| "buildGraph (e # es) (nodeMap, channelArr) =
     buildGraph es
       (addNode (node2_pubkey e) (lon2 e) (lat2 e)
          (addNode (node1_pubkey e) (lon1 e) (lat1 e) nodeMap),
        channelArr @
          [\<lparr>ch_id = channelId (node1_pubkey e) (node2_pubkey e),
            ch_source = node1_pubkey e, ch_target = node2_pubkey e, ch_status = Open\<rparr>])"

text \<open>
  The two detection loops (lines 133-144) share one shape: walk a set in insertion order
  and, for every id the other set lacks, log it and push an event stamped with the clock.
  \<open>newEvents\<close> starts empty, so the event being pushed has index \<open>length newEvents\<close>.
\<close>

fun pushMissing :: "status \<Rightarrow> (string \<Rightarrow> log_msg) \<Rightarrow> string list \<Rightarrow> string js_set \<Rightarrow>
    (nat \<Rightarrow> int) \<Rightarrow> channel_event list \<times> app_state \<Rightarrow> channel_event list \<times> app_state" where
  "pushMissing s msg [] other clk acc = acc"
| "pushMissing s msg (i # ids) other clk (newEvents, st) =
     (if i \<notin> set other
      then pushMissing s msg ids other clk
             (newEvents @ [\<lparr>ev_id = i, ev_ts = clk (length newEvents), ev_status = s\<rparr>],
              log_line (msg i) st)
      else pushMissing s msg ids other clk (newEvents, st))"

definition detectEvents :: "string js_set \<Rightarrow> string js_set \<Rightarrow> (nat \<Rightarrow> int) \<Rightarrow> app_state \<Rightarrow>
    channel_event list \<times> app_state" where
  "detectEvents prevChannels currentChannelIds clk st =
     pushMissing Closed EventClosed prevChannels currentChannelIds clk
       (pushMissing Open EventOpened currentChannelIds prevChannels clk ([], st))"

text \<open>The limit on one pass (lines 146-149).\<close>

definition limitEvents :: "int \<Rightarrow> channel_event list \<times> app_state \<Rightarrow>
    channel_event list \<times> app_state" where
  "limitEvents cap acc =
     (case acc of (newEvents, st) \<Rightarrow>
        if int (length newEvents) > cap
        then (slice_from (- cap) newEvents, log_line (WarningTooMany (length newEvents) cap) st)
        else (newEvents, st))"

text \<open>The block guarded by \<^verbatim>\<open>prevChannels.size > 0\<close> (lines 132-150).\<close>

definition detectBlock :: "int \<Rightarrow> string js_set \<Rightarrow> string js_set \<Rightarrow> (nat \<Rightarrow> int) \<Rightarrow>
    app_state \<Rightarrow> channel_event list \<times> app_state" where
  "detectBlock cap prevChannels currentChannelIds clk st =
     (if length prevChannels > 0
      then limitEvents cap (detectEvents prevChannels currentChannelIds clk st)
      else ([], st))"

text \<open>The updater handed to \<^verbatim>\<open>setChannelEvents\<close> (lines 155-161).\<close>

definition admitEvents :: "int \<Rightarrow> int \<Rightarrow> channel_event list \<Rightarrow> channel_event list \<Rightarrow>
    channel_event list" where
  "admitEvents cap now prev newEvents =
     (let filteredPrev = filter (\<lambda>e. now - ev_ts e < 5000) prev;
          allEvents = filteredPrev @ newEvents
      in slice_from (- cap) allEvents)"

text \<open>
  \<^verbatim>\<open>fetchChannelsGeo\<close>, from the moment the request has settled: everything after the two
  \<^verbatim>\<open>await\<close>s runs without interruption, and the line logged before the request touches
  the log only. \<open>cap\<close> is \<^verbatim>\<open>MAX_CHANNEL_EVENTS\<close>, an integer read from the environment with
  default 30. \<open>Throws\<close> is a rejected request or a body that is not JSON: the exception is
  caught and logged. A response that is not ok is logged. Neither touches any other state.
\<close>

definition fetchChannelsGeo :: "int \<Rightarrow> app_state \<Rightarrow> fetch_env \<Rightarrow> app_state" where
  "fetchChannelsGeo cap st0 env =
     (let st1 = log_line ApiFetching st0 in
      case response env of
        Throws \<Rightarrow> log_line ApiError st1
      | NotOk code \<Rightarrow> log_line (ApiFailed code) st1
      | JsonOk data \<Rightarrow>
          (let st2 = log_line (ApiReceived (length data)) st1;
               built = buildGraph data ([], []);
               nodeArr = map snd (fst built);
               channelArr = snd built;
               prevChannels = prevChannelsRef st2;
               currentChannelIds = Set_new (map ch_id channelArr)
           in if isFirstLoad st2 \<or> length prevChannels = 0
              then log_line (StateInitial (length nodeArr) (length channelArr))
                     (st2\<lparr>isFirstLoad := False, prevChannelsRef := currentChannelIds,
                          nodes := nodeArr, channels := channelArr,
                          lastUpdate := Some (update_date env), channelEvents := []\<rparr>)
              else
                (case detectBlock cap prevChannels currentChannelIds (push_clock env) st2 of
                   (newEvents, st3) \<Rightarrow>
                     log_line (StateUpdated (length nodeArr) (length channelArr))
                       (st3\<lparr>prevChannelsRef := currentChannelIds,
                            nodes := nodeArr, channels := channelArr,
                            lastUpdate := Some (update_date env),
                            channelEvents :=
                              admitEvents cap (admit_now env) (channelEvents st3) newEvents\<rparr>))))"

text \<open>A run of the poller: one call per settled request, in order.\<close>

definition poll :: "int \<Rightarrow> app_state \<Rightarrow> fetch_env list \<Rightarrow> app_state" where
  "poll cap st envs = foldl (fetchChannelsGeo cap) st envs"

definition accepted :: "fetch_env \<Rightarrow> bool" where
  "accepted env = (case response env of JsonOk data \<Rightarrow> True | _ \<Rightarrow> False)"


section \<open>LightningGraph.tsx: the drawing effect\<close>

type_synonym point = "real \<times> real"

text \<open>Stroke colours: \<^verbatim>\<open>#ffe066\<close> (yellow, channel open) and \<^verbatim>\<open>#ff4d4d\<close> (red, channel closed).\<close>

datatype stroke = Yellow | Red

text \<open>
  A lightning polyline as appended to the zoom group. Its first point is the source position
  and its last point the target position; the six jittered points between them come from
  \<^verbatim>\<open>Math.random\<close> and are left out.
\<close>

record lightning =
  l_from :: point
  l_to :: point
  l_stroke :: stroke

text \<open>
  The props of the component, after the defaults of the parameter list have been applied
  (\<^verbatim>\<open>channelEvents = []\<close>, \<^verbatim>\<open>maxChannelEvents = 30\<close>). \<open>None\<close> is \<^verbatim>\<open>undefined\<close>.
\<close>

record props =
  p_nodes :: "node list"
  p_channels :: "channel list"
  channelEventId :: "string option"
  triggerDebugLightning :: "int option"
  p_channelEvents :: "channel_event list"
  maxChannelEvents :: int

text \<open>
  What one run of the effect meets outside the program: whether \<^verbatim>\<open>svgRef.current\<close> is set
  (it is whenever React runs the effect of the mounted component), the canvas size, the
  projection that \<^verbatim>\<open>d3.geoMercator().fitSize\<close> returned for that size and the filtered map
  features (a library function, taken as it is; it may answer \<^verbatim>\<open>null\<close>), the two
  \<^verbatim>\<open>Math.random()\<close> samples of the debug indices, and the reading of \<^verbatim>\<open>Date.now()\<close> at each
  of the three places that call \<^verbatim>\<open>playLightningSound\<close>. Coordinates are JavaScript numbers,
  taken as reals; the samples are doubles, kept exactly.
\<close>

text \<open>
  A sample of \<^verbatim>\<open>Math.random()\<close> is a double in the interval from 0 to 1, 1 excluded. Every
  such double is \<open>mant / 2 ^ expo\<close> with \<open>mant < 2 ^ 53\<close> and \<open>expo \<le> 1074\<close>, and every
  such quotient below 1 is a double.
\<close>

record random_sample =
  mant :: nat
  expo :: nat

definition isRandom :: "random_sample \<Rightarrow> bool" where
  "isRandom r = (mant r < 2 ^ 53 \<and> mant r < 2 ^ expo r \<and> expo r \<le> 1074)"

text \<open>
  \<^verbatim>\<open>Math.floor(Math.random() * nodePositions.length)\<close> in double arithmetic. The length of an
  array is below \<open>2 ^ 32\<close> and so is a double; the product of the sample and the length is
  the integer \<open>mant * n\<close> over \<open>2 ^ expo\<close>, rounded to the nearest double, a tie going to
  the even significand. \<open>round53\<close> rounds the integer numerator to 53 significant bits. A
  numerator that needs rounding is at least \<open>2 ^ 53\<close>, so the product is at least
  \<open>2 ^ 53 / 2 ^ 1074\<close> and in the normal range, where the doubles are the numbers of 53
  significant bits; a product that never reaches 1 has floor 0 either way.
  \<^verbatim>\<open>Math.floor\<close> is exact.
\<close>

definition round53 :: "nat \<Rightarrow> nat" where
  "round53 M =
     (if M < 2 ^ 53 then M
      else (let s = floorlog 2 M - 53;
                q = M div 2 ^ s;
                rest = M mod 2 ^ s;
                half = 2 ^ (s - 1)
            in (if rest > half \<or> (rest = half \<and> odd q) then q + 1 else q) * 2 ^ s))"

definition floorTimes :: "random_sample \<Rightarrow> nat \<Rightarrow> int" where
  "floorTimes r n = int (round53 (mant r * n) div 2 ^ expo r)"

record render_env =
  svg_mounted :: bool
  width :: real
  height :: real
  projection :: "point \<Rightarrow> point option"
  random1 :: random_sample
  random2 :: random_sample
  now_single :: int
  now_debug :: int
  now_batch :: int

text \<open>
  The ref \<^verbatim>\<open>lastSoundTimeRef\<close>, and the times at which \<^verbatim>\<open>audio.play()\<close> has been called, oldest
  first.
\<close>

record sound_state =
  lastSoundTime :: int
  cues :: "int list"

definition initialSound :: sound_state where
  "initialSound = \<lparr>lastSoundTime = 0, cues = []\<rparr>"

definition playLightningSound :: "int \<Rightarrow> sound_state \<Rightarrow> sound_state" where
  "playLightningSound now ss =
     (if now - lastSoundTime ss > 1000
      then ss\<lparr>cues := cues ss @ [now], lastSoundTime := now\<rparr>
      else ss)"

text \<open>Node positions (lines 136-145) and the id-to-position table (lines 147-150).\<close>

definition nodePosition :: "real \<Rightarrow> real \<Rightarrow> (point \<Rightarrow> point option) \<Rightarrow> node \<Rightarrow> point" where
  "nodePosition w h proj n =
     (let x = w / 2; y = h / 2 in
      case node_geo n of
        None \<Rightarrow> (x, y)
      | Some g \<Rightarrow> (case proj (lon g, lat g) of None \<Rightarrow> (x, y) | Some p \<Rightarrow> p))"

definition nodePositions :: "real \<Rightarrow> real \<Rightarrow> (point \<Rightarrow> point option) \<Rightarrow> node list \<Rightarrow>
    (node \<times> point) list" where
  "nodePositions w h proj ns = map (\<lambda>n. (n, nodePosition w h proj n)) ns"

definition nodeMapOf :: "(node \<times> point) list \<Rightarrow> (string \<rightharpoonup> point)" where
  "nodeMapOf nps = foldl (\<lambda>m np. m(node_id (fst np) \<mapsto> snd np)) Map.empty nps"

definition strokeOf :: "status \<Rightarrow> stroke" where
  "strokeOf s = (if s = Closed then Red else Yellow)"

text \<open>The animation for \<^verbatim>\<open>channelEventId\<close> (lines 205-243). An empty string is falsy.\<close>

definition eventIdSection :: "props \<Rightarrow> (string \<rightharpoonup> point) \<Rightarrow> int \<Rightarrow> sound_state \<Rightarrow>
    sound_state \<times> lightning list" where
  "eventIdSection pr nodeMap now ss =
     (case channelEventId pr of
        None \<Rightarrow> (ss, [])
      | Some cid \<Rightarrow>
          if cid = [] then (ss, [])
          else (case find (\<lambda>c. ch_id c = cid) (p_channels pr) of
                  None \<Rightarrow> (ss, [])
                | Some event \<Rightarrow>
                    (case (nodeMap (ch_source event), nodeMap (ch_target event)) of
                       (Some source, Some target) \<Rightarrow>
                         (playLightningSound now ss,
                          [\<lparr>l_from = source, l_to = target,
                            l_stroke = strokeOf (ch_status event)\<rparr>])
                     | _ \<Rightarrow> (ss, []))))"

text \<open>
  The debug lightning (lines 246-283). \<open>a % b\<close> is \<^verbatim>\<open>NaN\<close> for \<open>b = 0\<close>, and reading an
  array at \<^verbatim>\<open>NaN\<close> or outside its bounds gives \<^verbatim>\<open>undefined\<close>: both are \<open>None\<close>. The
  program takes the remainder of a non-negative number only, where the remainder of
  JavaScript and \<open>mod\<close> agree.
\<close>

definition js_mod :: "int \<Rightarrow> int \<Rightarrow> int option" where
  "js_mod a b = (if b = 0 then None else Some (a mod b))"

definition at_index :: "'a list \<Rightarrow> int option \<Rightarrow> 'a option" where
  "at_index xs i =
     (case i of
        None \<Rightarrow> None
      | Some k \<Rightarrow> if 0 \<le> k \<and> k < int (length xs) then Some (xs ! nat k) else None)"

definition debugIndices :: "nat \<Rightarrow> random_sample \<Rightarrow> random_sample \<Rightarrow>
    int option \<times> int option" where
  "debugIndices n r1 r2 =
     (let idx1 = floorTimes r1 n;
          idx2 = floorTimes r2 n
      in (Some idx1, if idx1 = idx2 then js_mod (idx2 + 1) (int n) else Some idx2))"

definition debugSection :: "props \<Rightarrow> (node \<times> point) list \<Rightarrow> random_sample \<Rightarrow>
    random_sample \<Rightarrow> int \<Rightarrow> sound_state \<Rightarrow> sound_state \<times> lightning list" where
  "debugSection pr nps r1 r2 now ss =
     (case triggerDebugLightning pr of
        None \<Rightarrow> (ss, [])
      | Some t \<Rightarrow>
          if t > 0
          then (case debugIndices (length nps) r1 r2 of
                  (idx1, idx2) \<Rightarrow>
                    (case (at_index nps idx1, at_index nps idx2) of
                       (Some source, Some target) \<Rightarrow>
                         (playLightningSound now ss,
                          [\<lparr>l_from = snd source, l_to = snd target, l_stroke = Yellow\<rparr>])
                     | _ \<Rightarrow> (ss, [])))
          else (ss, []))"

text \<open>The animation of the batch of channel events (lines 286-330).\<close>

definition eventLightning :: "channel list \<Rightarrow> (string \<rightharpoonup> point) \<Rightarrow> channel_event \<Rightarrow>
    lightning list" where
  "eventLightning chans nodeMap event =
     (case find (\<lambda>c. ch_id c = ev_id event) chans of
        None \<Rightarrow> []
      | Some channel \<Rightarrow>
          (case (nodeMap (ch_source channel), nodeMap (ch_target channel)) of
             (Some source, Some target) \<Rightarrow>
               [\<lparr>l_from = source, l_to = target, l_stroke = strokeOf (ev_status event)\<rparr>]
           | _ \<Rightarrow> []))"

definition batchSection :: "props \<Rightarrow> (string \<rightharpoonup> point) \<Rightarrow> int \<Rightarrow> sound_state \<Rightarrow>
    sound_state \<times> lightning list" where
  "batchSection pr nodeMap now ss =
     (if length (p_channelEvents pr) > 0
      then (let limitedEvents = slice_from (- maxChannelEvents pr) (p_channelEvents pr)
            in (if length limitedEvents > 0 then playLightningSound now ss else ss,
                concat (map (eventLightning (p_channels pr) nodeMap) limitedEvents)))
      else (ss, []))"

text \<open>One run of the effect (lines 95-331): the sound state after it and the lightnings drawn.\<close>

definition renderEffect :: "sound_state \<Rightarrow> props \<times> render_env \<Rightarrow> sound_state \<times> lightning list" where
  "renderEffect ss0 pe =
     (case pe of (pr, env) \<Rightarrow>
        if \<not> svg_mounted env then (ss0, [])
        else
          (let nps = nodePositions (width env) (height env) (projection env) (p_nodes pr);
               nodeMap = nodeMapOf nps
           in case eventIdSection pr nodeMap (now_single env) ss0 of
                (ss1, single) \<Rightarrow>
                  (case debugSection pr nps (random1 env) (random2 env) (now_debug env) ss1 of
                     (ss2, debug) \<Rightarrow>
                       (case batchSection pr nodeMap (now_batch env) ss2 of
                          (ss3, batch) \<Rightarrow> (ss3, single @ debug @ batch)))))"

text \<open>The sound state after a sequence of runs of the effect.\<close>

definition renders :: "sound_state \<Rightarrow> (props \<times> render_env) list \<Rightarrow> sound_state" where
  "renders ss pes = foldl (\<lambda>s pe. fst (renderEffect s pe)) ss pes"

text \<open>Cue times in which every cue is more than 1000 ms after each earlier one.\<close>

fun spaced :: "int list \<Rightarrow> bool" where
  "spaced [] = True"
| "spaced (c # cs) = (list_all (\<lambda>d. c + 1000 < d) cs \<and> spaced cs)"


section \<open>Notions used in the proofs\<close>

text \<open>
  \<open>stamped s clk n ids\<close> is the list of events that a detection loop pushes for the ids
  \<open>ids\<close> when \<open>n\<close> events have been pushed before. \<open>sound_inv\<close> is the invariant of the
  sound state: the cues are spaced, none is later than the time kept in the ref, and that
  time is the last cue once there is one.
\<close>

definition stamped :: "status \<Rightarrow> (nat \<Rightarrow> int) \<Rightarrow> nat \<Rightarrow> string list \<Rightarrow> channel_event list" where
  "stamped s clk n ids = map (\<lambda>(k, i). \<lparr>ev_id = i, ev_ts = clk k, ev_status = s\<rparr>) (enumerate n ids)"

definition sound_inv :: "sound_state \<Rightarrow> bool" where
  "sound_inv ss =
     (spaced (cues ss) \<and> list_all (\<lambda>c. c \<le> lastSoundTime ss) (cues ss)
      \<and> (if cues ss = [] then True else last (cues ss) = lastSoundTime ss))"


section \<open>Sample inputs\<close>

definition sampleEntry :: "string \<Rightarrow> string \<Rightarrow> entry" where
  "sampleEntry a b =
     \<lparr>node1_pubkey = a, node1_alias = ''x'', lon1 = 1, lat1 = 2,
      node2_pubkey = b, node2_alias = ''y'', lon2 = 3, lat2 = 4\<rparr>"

definition sampleEnv :: "response \<Rightarrow> fetch_env" where
  "sampleEnv r = \<lparr>response = r, push_clock = (\<lambda>k. 1000 + int k), update_date = 1000, admit_now = 1001\<rparr>"

definition sampleState :: app_state where
  "sampleState =
     \<lparr>nodes = [], channels = [], lastUpdate = Some 0, logs = [], channelEvents = [],
      prevChannelsRef = [''n1-n2''], isFirstLoad = False\<rparr>"

definition sampleProps :: "channel_event list \<Rightarrow> props" where
  "sampleProps evs =
     \<lparr>p_nodes = [], p_channels = [], channelEventId = None, triggerDebugLightning = None,
      p_channelEvents = evs, maxChannelEvents = 30\<rparr>"

definition noProjection :: "point \<Rightarrow> point option" where
  "noProjection p = None"

definition sampleRenderEnv :: "int \<Rightarrow> render_env" where
  "sampleRenderEnv now =
     \<lparr>svg_mounted = True, width = 800, height = 600, projection = noProjection,
      random1 = \<lparr>mant = 1, expo = 1\<rparr>, random2 = \<lparr>mant = 3, expo = 2\<rparr>,
      now_single = now, now_debug = now, now_batch = now\<rparr>"

definition sampleBurst :: "channel_event list" where
  "sampleBurst =
     [\<lparr>ev_id = ''n1-n2'', ev_ts = 4990, ev_status = Open\<rparr>,
      \<lparr>ev_id = ''n2-n3'', ev_ts = 4991, ev_status = Closed\<rparr>,
      \<lparr>ev_id = ''n3-n4'', ev_ts = 4992, ev_status = Open\<rparr>]"

definition sampleNode :: "string \<Rightarrow> real \<Rightarrow> real \<Rightarrow> node" where
  "sampleNode a lo la = \<lparr>node_id = a, node_geo = Some \<lparr>lat = la, lon = lo\<rparr>\<rparr>"

definition shiftProjection :: "point \<Rightarrow> point option" where
  "shiftProjection p = Some (400 + fst p, 300 - snd p)"


definition sampleHalf :: random_sample where
  "sampleHalf = \<lparr>mant = 1, expo = 1\<rparr>"

definition sampleThreeQuarters :: random_sample where
  "sampleThreeQuarters = \<lparr>mant = 3, expo = 2\<rparr>"

definition threeNodes :: "node list" where
  "threeNodes = [sampleNode ''n1'' 10 20, sampleNode ''n2'' 30 40, sampleNode ''n3'' 50 60]"

definition debugRun :: "int \<Rightarrow> props \<times> render_env" where
  "debugRun now =
     (\<lparr>p_nodes = threeNodes, p_channels = [], channelEventId = None,
       triggerDebugLightning = Some 1, p_channelEvents = [], maxChannelEvents = 30\<rparr>,
      \<lparr>svg_mounted = True, width = 800, height = 600, projection = shiftProjection,
       random1 = sampleHalf, random2 = sampleThreeQuarters,
       now_single = now, now_debug = now, now_batch = now\<rparr>)"


section \<open>Properties\<close>

subsection \<open>Slices and sets\<close>

lemma slice_from_neg: "0 < cap \<Longrightarrow> slice_from (- cap) xs = drop (length xs - nat cap) xs"
  by (auto simp: slice_from_def Let_def max_def nat_diff_distrib' intro: arg_cong[where f="\<lambda>k. drop k xs"])

lemma slice_from_zero: "slice_from 0 xs = xs"
  by (simp add: slice_from_def)

lemma suffix_slice_from: "suffix (slice_from k xs) xs"
  by (simp add: slice_from_def Let_def suffix_drop)

lemma length_slice_from_cap: "0 < cap \<Longrightarrow> int (length (slice_from (- cap) xs)) \<le> cap"
  by (simp add: slice_from_neg)

lemma length_slice_from_min: "0 < cap \<Longrightarrow> length (slice_from (- cap) xs) = min (length xs) (nat cap)"
  by (simp add: slice_from_neg)

lemma set_foldl_Set_add: "set (foldl Set_add s xs) = set s \<union> set xs"
  by (induction xs arbitrary: s) (auto simp: Set_add_def)

lemma distinct_foldl_Set_add: "distinct s \<Longrightarrow> distinct (foldl Set_add s xs)"
  by (induction xs arbitrary: s) (auto simp: Set_add_def)

lemma set_Set_new: "set (Set_new xs) = set xs"
  by (simp add: Set_new_def set_foldl_Set_add)

lemma distinct_Set_new: "distinct (Set_new xs)"
  by (simp add: Set_new_def distinct_foldl_Set_add)

lemma Set_new_Nil: "Set_new [] = []"
  by (simp add: Set_new_def)

subsection \<open>The detection loops\<close>

lemma fst_pushMissing:
  "fst (pushMissing s msg ids other clk (evs, st)) =
     evs @ map (\<lambda>(k, i). \<lparr>ev_id = i, ev_ts = clk k, ev_status = s\<rparr>)
             (enumerate (length evs) (filter (\<lambda>i. i \<notin> set other) ids))"
proof (induction ids arbitrary: evs st)
  case Nil
  show ?case by simp
next
  case (Cons i ids)
  show ?case
  proof (cases "i \<in> set other")
    case True
    then show ?thesis using Cons.IH by simp
  next
    case False
    then show ?thesis using Cons.IH by simp
  qed
qed

lemma stamped_simps:
  "stamped s clk n [] = []"
  "stamped s clk n (i # ids) = \<lparr>ev_id = i, ev_ts = clk n, ev_status = s\<rparr> # stamped s clk (Suc n) ids"
  by (simp_all add: stamped_def)

lemma length_stamped: "length (stamped s clk n ids) = length ids"
  by (simp add: stamped_def)

lemma map_ev_id_stamped: "map ev_id (stamped s clk n ids) = ids"
  by (induction ids arbitrary: n) (simp_all add: stamped_simps)

lemma status_stamped: "e \<in> set (stamped s clk n ids) \<Longrightarrow> ev_status e = s"
  by (induction ids arbitrary: n) (auto simp: stamped_simps)

lemma filter_status_stamped_same:
  "filter (\<lambda>e. ev_status e = s) (stamped s clk n ids) = stamped s clk n ids"
  by (induction ids arbitrary: n) (simp_all add: stamped_simps)

lemma filter_status_stamped_other:
  "s \<noteq> s' \<Longrightarrow> filter (\<lambda>e. ev_status e = s') (stamped s clk n ids) = []"
  by (induction ids arbitrary: n) (simp_all add: stamped_simps)

lemma count_stamped_same:
  "length (filter (\<lambda>e. ev_id e = i \<and> ev_status e = s) (stamped s clk n ids)) =
     length (filter (\<lambda>j. j = i) ids)"
  by (induction ids arbitrary: n) (simp_all add: stamped_simps)

lemma count_stamped_other:
  "s \<noteq> s' \<Longrightarrow> length (filter (\<lambda>e. ev_id e = i \<and> ev_status e = s') (stamped s clk n ids)) = 0"
  by (induction ids arbitrary: n) (simp_all add: stamped_simps)

lemma count_distinct: "distinct xs \<Longrightarrow> length (filter (\<lambda>j. j = i) xs) = (if i \<in> set xs then 1 else 0)"
  by (induction xs) auto

lemma fst_detectEvents:
  "fst (detectEvents P C clk st) =
     stamped Open clk 0 (filter (\<lambda>i. i \<notin> set P) C) @
     stamped Closed clk (length (filter (\<lambda>i. i \<notin> set P) C)) (filter (\<lambda>i. i \<notin> set C) P)"
proof -
  obtain evs st1 where o: "pushMissing Open EventOpened C P clk ([], st) = (evs, st1)"
    by (cases "pushMissing Open EventOpened C P clk ([], st)")
  have evs: "evs = stamped Open clk 0 (filter (\<lambda>i. i \<notin> set P) C)"
    using fst_pushMissing[of Open EventOpened C P clk "[]" st] o by (simp add: stamped_def)
  show ?thesis
    unfolding detectEvents_def o
    by (simp add: fst_pushMissing evs length_stamped stamped_def)
qed

lemma detectBlock_nonempty:
  "P \<noteq> [] \<Longrightarrow> detectBlock cap P C clk st = limitEvents cap (detectEvents P C clk st)"
  by (simp add: detectBlock_def)

text \<open>
  Claim C1. When the previous set is not empty the guarded block runs both loops and hands
  their list to the limit. In that list, before the limit, an id of the current set that the
  previous set lacks has exactly one open event and no closed one, an id of the previous set
  that the current set lacks has exactly one closed event and no open one, and an id in both
  sets has no event at all.
\<close>
theorem diff_exactly_open_closed:
  assumes "Set_new ps \<noteq> []"
  shows "detectBlock cap (Set_new ps) (Set_new cs) clk st
           = limitEvents cap (detectEvents (Set_new ps) (Set_new cs) clk st)
       \<and> length (filter (\<lambda>e. ev_id e = i \<and> ev_status e = Open)
                 (fst (detectEvents (Set_new ps) (Set_new cs) clk st)))
           = (if i \<in> set cs - set ps then 1 else 0)
       \<and> length (filter (\<lambda>e. ev_id e = i \<and> ev_status e = Closed)
                 (fst (detectEvents (Set_new ps) (Set_new cs) clk st)))
           = (if i \<in> set ps - set cs then 1 else 0)
       \<and> (i \<in> set ps \<inter> set cs \<longrightarrow>
            list_all (\<lambda>e. ev_id e \<noteq> i) (fst (detectEvents (Set_new ps) (Set_new cs) clk st)))"
proof -
  let ?P = "Set_new ps" and ?C = "Set_new cs"
  let ?evs = "fst (detectEvents ?P ?C clk st)"
  have dC: "distinct (filter (\<lambda>i. i \<notin> set ?P) ?C)" and dP: "distinct (filter (\<lambda>i. i \<notin> set ?C) ?P)"
    by (simp_all add: distinct_Set_new)
  have block: "detectBlock cap ?P ?C clk st = limitEvents cap (detectEvents ?P ?C clk st)"
    using assms by (rule detectBlock_nonempty)
  have "length (filter (\<lambda>e. ev_id e = i \<and> ev_status e = Open) ?evs)
      = length (filter (\<lambda>j. j = i) (filter (\<lambda>i. i \<notin> set ?P) ?C))"
    unfolding fst_detectEvents filter_append length_append
    by (simp only: count_stamped_same count_stamped_other[of Closed Open] status.distinct
          not_False_eq_True add_0_right)
  also have "\<dots> = (if i \<in> set cs - set ps then 1 else 0)"
    unfolding count_distinct[OF dC] by (simp add: set_Set_new)
  finally have opened: "length (filter (\<lambda>e. ev_id e = i \<and> ev_status e = Open) ?evs)
      = (if i \<in> set cs - set ps then 1 else 0)" .
  have "length (filter (\<lambda>e. ev_id e = i \<and> ev_status e = Closed) ?evs)
      = length (filter (\<lambda>j. j = i) (filter (\<lambda>i. i \<notin> set ?C) ?P))"
    unfolding fst_detectEvents filter_append length_append
    by (simp only: count_stamped_same count_stamped_other[of Open Closed] status.distinct
          not_False_eq_True add_0)
  also have "\<dots> = (if i \<in> set ps - set cs then 1 else 0)"
    unfolding count_distinct[OF dP] by (simp add: set_Set_new)
  finally have closed: "length (filter (\<lambda>e. ev_id e = i \<and> ev_status e = Closed) ?evs)
      = (if i \<in> set ps - set cs then 1 else 0)" .
  have ids: "map ev_id ?evs = filter (\<lambda>i. i \<notin> set ?P) ?C @ filter (\<lambda>i. i \<notin> set ?C) ?P"
    by (simp add: fst_detectEvents map_ev_id_stamped)
  have none: "i \<in> set ps \<inter> set cs \<longrightarrow> list_all (\<lambda>e. ev_id e \<noteq> i) ?evs"
  proof
    assume i: "i \<in> set ps \<inter> set cs"
    have "i \<notin> set (map ev_id ?evs)"
      unfolding ids using i by (simp add: set_Set_new)
    then show "list_all (\<lambda>e. ev_id e \<noteq> i) ?evs"
      by (auto simp: list_all_iff)
  qed
  from block opened closed none show ?thesis by blast
qed

theorem diff_exactly_open_closed_witness:
  "Set_new [''n1-n2''] \<noteq> []
   \<and> length (filter (\<lambda>e. ev_id e = ''n2-n3'' \<and> ev_status e = Open)
        (fst (detectEvents (Set_new [''n1-n2'']) (Set_new [''n1-n2'', ''n2-n3'']) (\<lambda>k. 1000 + int k) initialState))) = 1
   \<and> length (filter (\<lambda>e. ev_id e = ''n2-n3'' \<and> ev_status e = Closed)
        (fst (detectEvents (Set_new [''n1-n2'']) (Set_new [''n1-n2'', ''n2-n3'']) (\<lambda>k. 1000 + int k) initialState))) = 0
   \<and> fst (detectEvents (Set_new [''n1-n2'']) (Set_new [''n1-n2'', ''n2-n3'']) (\<lambda>k. 1000 + int k) initialState)
       = [\<lparr>ev_id = ''n2-n3'', ev_ts = 1000, ev_status = Open\<rparr>]"
proof -
  have ne: "Set_new [''n1-n2''] \<noteq> []"
    by (simp add: Set_new_def Set_add_def)
  have ev: "fst (detectEvents (Set_new [''n1-n2'']) (Set_new [''n1-n2'', ''n2-n3'']) (\<lambda>k. 1000 + int k) initialState)
       = [\<lparr>ev_id = ''n2-n3'', ev_ts = 1000, ev_status = Open\<rparr>]"
    by (simp add: detectEvents_def Set_new_def Set_add_def)
  show ?thesis
    using ne ev
      diff_exactly_open_closed[OF ne, of 30 "[''n1-n2'', ''n2-n3'']" "\<lambda>k. 1000 + int k" initialState "''n2-n3''"]
    by simp
qed

subsection \<open>The limit keeps a tail\<close>

lemma suffix_of_append_cases:
  "suffix zs (xs @ ys) \<Longrightarrow> suffix zs ys \<or> suffix ys zs"
  by (metis suffix_appendI suffix_order.refl suffix_same_cases)

lemma fst_limitEvents:
  "fst (limitEvents cap (evs, st)) = (if int (length evs) > cap then slice_from (- cap) evs else evs)"
  by (simp add: limitEvents_def)

lemma suffix_limitEvents: "suffix (fst (limitEvents cap acc)) (fst acc)"
  by (cases acc) (simp add: fst_limitEvents suffix_slice_from)

text \<open>
  Claim C10. The list of one detection pass is its open events followed by its closed
  events. The limit keeps a tail of that list, so as soon as one open event is kept every
  closed event of the pass is kept too.
\<close>
theorem opens_precede_closes:
  "fst (detectEvents P C clk st)
     = filter (\<lambda>e. ev_status e = Open) (fst (detectEvents P C clk st))
       @ filter (\<lambda>e. ev_status e = Closed) (fst (detectEvents P C clk st))
   \<and> suffix (fst (limitEvents cap (detectEvents P C clk st))) (fst (detectEvents P C clk st))
   \<and> ((\<exists>e \<in> set (fst (limitEvents cap (detectEvents P C clk st))). ev_status e = Open) \<longrightarrow>
        suffix (filter (\<lambda>e. ev_status e = Closed) (fst (detectEvents P C clk st)))
               (fst (limitEvents cap (detectEvents P C clk st))))"
proof -
  let ?os = "stamped Open clk 0 (filter (\<lambda>i. i \<notin> set P) C)"
  let ?cs = "stamped Closed clk (length (filter (\<lambda>i. i \<notin> set P) C)) (filter (\<lambda>i. i \<notin> set C) P)"
  let ?evs = "fst (detectEvents P C clk st)"
  let ?kept = "fst (limitEvents cap (detectEvents P C clk st))"
  have evs: "?evs = ?os @ ?cs" by (rule fst_detectEvents)
  have fo: "filter (\<lambda>e. ev_status e = Open) ?evs = ?os"
    unfolding evs filter_append
    by (simp add: filter_status_stamped_same filter_status_stamped_other)
  have fc: "filter (\<lambda>e. ev_status e = Closed) ?evs = ?cs"
    unfolding evs filter_append
    by (simp add: filter_status_stamped_same filter_status_stamped_other)
  have order: "?evs = filter (\<lambda>e. ev_status e = Open) ?evs @ filter (\<lambda>e. ev_status e = Closed) ?evs"
    unfolding fo fc by (rule evs)
  have tail: "suffix ?kept ?evs" by (rule suffix_limitEvents)
  have pref: "(\<exists>e \<in> set ?kept. ev_status e = Open) \<longrightarrow> suffix (filter (\<lambda>e. ev_status e = Closed) ?evs) ?kept"
  proof
    assume "\<exists>e \<in> set ?kept. ev_status e = Open"
    then obtain e where e: "e \<in> set ?kept" "ev_status e = Open" by blast
    from tail have "suffix ?kept (?os @ ?cs)" by (simp only: evs)
    then have "suffix ?kept ?cs \<or> suffix ?cs ?kept" by (rule suffix_of_append_cases)
    moreover have "\<not> suffix ?kept ?cs"
    proof
      assume "suffix ?kept ?cs"
      then have "e \<in> set ?cs" using e(1) set_mono_suffix by blast
      then have "ev_status e = Closed" by (rule status_stamped)
      with e(2) show False by simp
    qed
    ultimately show "suffix (filter (\<lambda>e. ev_status e = Closed) ?evs) ?kept"
      unfolding fc by blast
  qed
  from order tail pref show ?thesis by blast
qed

theorem opens_precede_closes_witness:
  "fst (detectEvents [''a'', ''b'', ''c''] [''c'', ''d'', ''e''] (\<lambda>k. int k) initialState)
     = [\<lparr>ev_id = ''d'', ev_ts = 0, ev_status = Open\<rparr>, \<lparr>ev_id = ''e'', ev_ts = 1, ev_status = Open\<rparr>,
        \<lparr>ev_id = ''a'', ev_ts = 2, ev_status = Closed\<rparr>, \<lparr>ev_id = ''b'', ev_ts = 3, ev_status = Closed\<rparr>]
   \<and> fst (limitEvents 3 (detectEvents [''a'', ''b'', ''c''] [''c'', ''d'', ''e''] (\<lambda>k. int k) initialState))
     = [\<lparr>ev_id = ''e'', ev_ts = 1, ev_status = Open\<rparr>,
        \<lparr>ev_id = ''a'', ev_ts = 2, ev_status = Closed\<rparr>, \<lparr>ev_id = ''b'', ev_ts = 3, ev_status = Closed\<rparr>]
   \<and> suffix (filter (\<lambda>e. ev_status e = Closed)
               (fst (detectEvents [''a'', ''b'', ''c''] [''c'', ''d'', ''e''] (\<lambda>k. int k) initialState)))
            (fst (limitEvents 3 (detectEvents [''a'', ''b'', ''c''] [''c'', ''d'', ''e''] (\<lambda>k. int k) initialState)))"
proof -
  have ev: "detectEvents [''a'', ''b'', ''c''] [''c'', ''d'', ''e''] (\<lambda>k. int k) initialState
     = ([\<lparr>ev_id = ''d'', ev_ts = 0, ev_status = Open\<rparr>, \<lparr>ev_id = ''e'', ev_ts = 1, ev_status = Open\<rparr>,
        \<lparr>ev_id = ''a'', ev_ts = 2, ev_status = Closed\<rparr>, \<lparr>ev_id = ''b'', ev_ts = 3, ev_status = Closed\<rparr>],
        snd (detectEvents [''a'', ''b'', ''c''] [''c'', ''d'', ''e''] (\<lambda>k. int k) initialState))"
    by (simp add: detectEvents_def)
  have kept: "fst (limitEvents 3 (detectEvents [''a'', ''b'', ''c''] [''c'', ''d'', ''e''] (\<lambda>k. int k) initialState))
     = [\<lparr>ev_id = ''e'', ev_ts = 1, ev_status = Open\<rparr>,
        \<lparr>ev_id = ''a'', ev_ts = 2, ev_status = Closed\<rparr>, \<lparr>ev_id = ''b'', ev_ts = 3, ev_status = Closed\<rparr>]"
    by (subst ev) (simp add: fst_limitEvents slice_from_def)
  have op: "\<exists>e \<in> set (fst (limitEvents 3 (detectEvents [''a'', ''b'', ''c''] [''c'', ''d'', ''e''] (\<lambda>k. int k) initialState))).
      ev_status e = Open"
    unfolding kept by simp
  show ?thesis
    using opens_precede_closes[of "[''a'', ''b'', ''c'']" "[''c'', ''d'', ''e'']" "\<lambda>k. int k" initialState 3] op ev kept
    by (metis fst_conv)
qed

subsection \<open>The poller\<close>

lemma logs_only_log [simp]:
  "nodes (log_line m st) = nodes st" "channels (log_line m st) = channels st"
  "lastUpdate (log_line m st) = lastUpdate st" "channelEvents (log_line m st) = channelEvents st"
  "prevChannelsRef (log_line m st) = prevChannelsRef st" "isFirstLoad (log_line m st) = isFirstLoad st"
  by (simp_all add: log_line_def)

lemma ids_buildGraph:
  "map ch_id (snd (buildGraph data (nodeMap, channelArr))) =
     map ch_id channelArr @ map (\<lambda>e. channelId (node1_pubkey e) (node2_pubkey e)) data"
  by (induction data arbitrary: nodeMap channelArr) simp_all

lemma fetch_rejected:
  assumes "\<not> accepted env"
  shows "nodes (fetchChannelsGeo cap st env) = nodes st"
    and "channels (fetchChannelsGeo cap st env) = channels st"
    and "lastUpdate (fetchChannelsGeo cap st env) = lastUpdate st"
    and "channelEvents (fetchChannelsGeo cap st env) = channelEvents st"
    and "prevChannelsRef (fetchChannelsGeo cap st env) = prevChannelsRef st"
    and "isFirstLoad (fetchChannelsGeo cap st env) = isFirstLoad st"
  using assms by (auto simp: fetchChannelsGeo_def accepted_def split: response.splits)

lemma poll_rejected:
  assumes "\<forall>e \<in> set envs. \<not> accepted e"
  shows "channelEvents (poll cap st envs) = channelEvents st
       \<and> prevChannelsRef (poll cap st envs) = prevChannelsRef st
       \<and> isFirstLoad (poll cap st envs) = isFirstLoad st"
  using assms
proof (induction envs arbitrary: st)
  case Nil
  show ?case by (simp add: poll_def)
next
  case (Cons e envs)
  have "poll cap st (e # envs) = poll cap (fetchChannelsGeo cap st e) envs"
    by (simp add: poll_def)
  then show ?case using Cons by (simp add: fetch_rejected)
qed

lemma fetch_baseline:
  assumes "response env = JsonOk data" and "isFirstLoad st \<or> prevChannelsRef st = []"
  shows "fetchChannelsGeo cap st env =
     log_line (StateInitial (length (fst (buildGraph data ([], [])))) (length data))
       ((log_line (ApiReceived (length data)) (log_line ApiFetching st))
          \<lparr>isFirstLoad := False,
           prevChannelsRef := Set_new (map (\<lambda>e. channelId (node1_pubkey e) (node2_pubkey e)) data),
           nodes := map snd (fst (buildGraph data ([], []))),
           channels := snd (buildGraph data ([], [])),
           lastUpdate := Some (update_date env), channelEvents := []\<rparr>)"
proof -
  have ids: "map ch_id (snd (buildGraph data ([], []))) = map (\<lambda>e. channelId (node1_pubkey e) (node2_pubkey e)) data"
    using ids_buildGraph[of data "[]" "[]"] by simp
  have len: "length (snd (buildGraph data ([], []))) = length data"
    using arg_cong[OF ids, of length] by simp
  show ?thesis
    using assms by (auto simp: fetchChannelsGeo_def Let_def ids len)
qed

lemma snd_pushMissing_fields:
  "nodes (snd (pushMissing s msg ids other clk (evs, st))) = nodes st
   \<and> channels (snd (pushMissing s msg ids other clk (evs, st))) = channels st
   \<and> lastUpdate (snd (pushMissing s msg ids other clk (evs, st))) = lastUpdate st
   \<and> channelEvents (snd (pushMissing s msg ids other clk (evs, st))) = channelEvents st
   \<and> prevChannelsRef (snd (pushMissing s msg ids other clk (evs, st))) = prevChannelsRef st
   \<and> isFirstLoad (snd (pushMissing s msg ids other clk (evs, st))) = isFirstLoad st"
  by (induction ids arbitrary: evs st) simp_all

lemma snd_detectEvents_fields:
  "nodes (snd (detectEvents P C clk st)) = nodes st
   \<and> channels (snd (detectEvents P C clk st)) = channels st
   \<and> lastUpdate (snd (detectEvents P C clk st)) = lastUpdate st
   \<and> channelEvents (snd (detectEvents P C clk st)) = channelEvents st
   \<and> prevChannelsRef (snd (detectEvents P C clk st)) = prevChannelsRef st
   \<and> isFirstLoad (snd (detectEvents P C clk st)) = isFirstLoad st"
proof -
  obtain evs st1 where o: "pushMissing Open EventOpened C P clk ([], st) = (evs, st1)"
    by (cases "pushMissing Open EventOpened C P clk ([], st)")
  have "nodes st1 = nodes st \<and> channels st1 = channels st \<and> lastUpdate st1 = lastUpdate st
      \<and> channelEvents st1 = channelEvents st \<and> prevChannelsRef st1 = prevChannelsRef st
      \<and> isFirstLoad st1 = isFirstLoad st"
    using snd_pushMissing_fields[of Open EventOpened C P clk "[]" st] by (simp add: o)
  then show ?thesis
    unfolding detectEvents_def o by (simp add: snd_pushMissing_fields)
qed

lemma snd_limitEvents_fields:
  "nodes (snd (limitEvents cap acc)) = nodes (snd acc)
   \<and> channels (snd (limitEvents cap acc)) = channels (snd acc)
   \<and> lastUpdate (snd (limitEvents cap acc)) = lastUpdate (snd acc)
   \<and> channelEvents (snd (limitEvents cap acc)) = channelEvents (snd acc)
   \<and> prevChannelsRef (snd (limitEvents cap acc)) = prevChannelsRef (snd acc)
   \<and> isFirstLoad (snd (limitEvents cap acc)) = isFirstLoad (snd acc)"
  by (cases acc) (simp add: limitEvents_def)

lemma snd_detectBlock_fields:
  "nodes (snd (detectBlock cap P C clk st)) = nodes st
   \<and> channels (snd (detectBlock cap P C clk st)) = channels st
   \<and> lastUpdate (snd (detectBlock cap P C clk st)) = lastUpdate st
   \<and> channelEvents (snd (detectBlock cap P C clk st)) = channelEvents st
   \<and> prevChannelsRef (snd (detectBlock cap P C clk st)) = prevChannelsRef st
   \<and> isFirstLoad (snd (detectBlock cap P C clk st)) = isFirstLoad st"
  by (simp add: detectBlock_def snd_limitEvents_fields snd_detectEvents_fields)

lemma fetch_diff:
  assumes "response env = JsonOk data" and "\<not> isFirstLoad st" and "prevChannelsRef st \<noteq> []"
  shows "channelEvents (fetchChannelsGeo cap st env) =
           admitEvents cap (admit_now env) (channelEvents st)
             (fst (limitEvents cap
                (detectEvents (prevChannelsRef st)
                   (Set_new (map (\<lambda>e. channelId (node1_pubkey e) (node2_pubkey e)) data))
                   (push_clock env) (log_line (ApiReceived (length data)) (log_line ApiFetching st)))))
       \<and> prevChannelsRef (fetchChannelsGeo cap st env)
           = Set_new (map (\<lambda>e. channelId (node1_pubkey e) (node2_pubkey e)) data)
       \<and> nodes (fetchChannelsGeo cap st env) = map snd (fst (buildGraph data ([], [])))
       \<and> channels (fetchChannelsGeo cap st env) = snd (buildGraph data ([], []))
       \<and> \<not> isFirstLoad (fetchChannelsGeo cap st env)"
proof -
  let ?st2 = "log_line (ApiReceived (length data)) (log_line ApiFetching st)"
  let ?C = "Set_new (map (\<lambda>e. channelId (node1_pubkey e) (node2_pubkey e)) data)"
  have ids: "map ch_id (snd (buildGraph data ([], []))) = map (\<lambda>e. channelId (node1_pubkey e) (node2_pubkey e)) data"
    using ids_buildGraph[of data "[]" "[]"] by simp
  obtain newEvents st3 where d: "detectBlock cap (prevChannelsRef st) ?C (push_clock env) ?st2 = (newEvents, st3)"
    by (cases "detectBlock cap (prevChannelsRef st) ?C (push_clock env) ?st2")
  have st3: "st3 = snd (detectBlock cap (prevChannelsRef st) ?C (push_clock env) ?st2)"
    and ne: "newEvents = fst (detectBlock cap (prevChannelsRef st) ?C (push_clock env) ?st2)"
    by (simp_all add: d)
  have f3: "channelEvents st3 = channelEvents st" "isFirstLoad st3 = isFirstLoad st"
    unfolding st3 by (simp_all add: snd_detectBlock_fields)
  have ne': "newEvents = fst (limitEvents cap (detectEvents (prevChannelsRef st) ?C (push_clock env) ?st2))"
    unfolding ne using assms(3) by (simp add: detectBlock_def)
  have "fetchChannelsGeo cap st env =
      log_line (StateUpdated (length (fst (buildGraph data ([], [])))) (length (snd (buildGraph data ([], [])))))
        (st3\<lparr>prevChannelsRef := ?C, nodes := map snd (fst (buildGraph data ([], []))),
             channels := snd (buildGraph data ([], [])), lastUpdate := Some (update_date env),
             channelEvents := admitEvents cap (admit_now env) (channelEvents st3) newEvents\<rparr>)"
    using assms d by (simp add: fetchChannelsGeo_def Let_def ids)
  then show ?thesis
    using f3 ne' assms(2) by simp
qed

lemma fetch_accepted_baseline_set:
  assumes "response env = JsonOk data"
  shows "prevChannelsRef (fetchChannelsGeo cap st env)
           = Set_new (map (\<lambda>e. channelId (node1_pubkey e) (node2_pubkey e)) data)
       \<and> \<not> isFirstLoad (fetchChannelsGeo cap st env)"
proof (cases "isFirstLoad st \<or> prevChannelsRef st = []")
  case True
  from fetch_baseline[OF assms True, of cap] show ?thesis by simp
next
  case False
  then have "\<not> isFirstLoad st" "prevChannelsRef st \<noteq> []" by simp_all
  from fetch_diff[OF assms this, of cap] show ?thesis by simp
qed

lemma first_load_has_no_baseline:
  "isFirstLoad (poll cap initialState envs) \<Longrightarrow> prevChannelsRef (poll cap initialState envs) = []"
proof (induction envs rule: rev_induct)
  case Nil
  show ?case by (simp add: poll_def initialState_def)
next
  case (snoc e envs)
  have step: "poll cap initialState (envs @ [e]) = fetchChannelsGeo cap (poll cap initialState envs) e"
    by (simp add: poll_def)
  show ?case
  proof (cases "response e")
    case (JsonOk data)
    then have "\<not> isFirstLoad (fetchChannelsGeo cap (poll cap initialState envs) e)"
      using fetch_accepted_baseline_set by blast
    with snoc.prems show ?thesis by (simp add: step)
  next
    case Throws
    then have "\<not> accepted e" by (simp add: accepted_def)
    with snoc show ?thesis by (simp add: step fetch_rejected)
  next
    case (NotOk code)
    then have "\<not> accepted e" by (simp add: accepted_def)
    with snoc show ?thesis by (simp add: step fetch_rejected)
  qed
qed

text \<open>
  Claim C2. Starting from the initial state, after any number of requests that were not
  accepted, the first accepted snapshot leaves the channel events empty whatever it contains;
  it stores the ids of its channels as the baseline, stores its nodes and channels, and
  clears the first-load flag. No event existed before it either.
\<close>
theorem first_snapshot_is_baseline:
  assumes "\<forall>e \<in> set envs. \<not> accepted e" and "response env = JsonOk data"
  shows "channelEvents (fetchChannelsGeo cap (poll cap initialState envs) env) = []
       \<and> prevChannelsRef (fetchChannelsGeo cap (poll cap initialState envs) env)
           = Set_new (map (\<lambda>e. channelId (node1_pubkey e) (node2_pubkey e)) data)
       \<and> nodes (fetchChannelsGeo cap (poll cap initialState envs) env)
           = map snd (fst (buildGraph data ([], [])))
       \<and> channels (fetchChannelsGeo cap (poll cap initialState envs) env)
           = snd (buildGraph data ([], []))
       \<and> \<not> isFirstLoad (fetchChannelsGeo cap (poll cap initialState envs) env)
       \<and> channelEvents (poll cap initialState envs) = []"
proof -
  have keep: "isFirstLoad (poll cap initialState envs)" "channelEvents (poll cap initialState envs) = []"
    using poll_rejected[OF assms(1), of cap initialState] by (simp_all add: initialState_def)
  have "isFirstLoad (poll cap initialState envs) \<or> prevChannelsRef (poll cap initialState envs) = []"
    using keep(1) by simp
  from fetch_baseline[OF assms(2) this, of cap] keep(2) show ?thesis
    by simp
qed

theorem first_snapshot_is_baseline_witness:
  "\<not> accepted (sampleEnv (NotOk 500)) \<and> \<not> accepted (sampleEnv Throws)
   \<and> response (sampleEnv (JsonOk [sampleEntry ''n1'' ''n2'', sampleEntry ''n2'' ''n3''])) 
       = JsonOk [sampleEntry ''n1'' ''n2'', sampleEntry ''n2'' ''n3'']
   \<and> channelEvents (fetchChannelsGeo 30 (poll 30 initialState [sampleEnv (NotOk 500), sampleEnv Throws])
        (sampleEnv (JsonOk [sampleEntry ''n1'' ''n2'', sampleEntry ''n2'' ''n3'']))) = []
   \<and> prevChannelsRef (fetchChannelsGeo 30 (poll 30 initialState [sampleEnv (NotOk 500), sampleEnv Throws])
        (sampleEnv (JsonOk [sampleEntry ''n1'' ''n2'', sampleEntry ''n2'' ''n3'']))) = [''n1-n2'', ''n2-n3'']"
proof -
  have rej: "\<forall>e \<in> set [sampleEnv (NotOk 500), sampleEnv Throws]. \<not> accepted e"
    by (simp add: accepted_def sampleEnv_def)
  have ok: "response (sampleEnv (JsonOk [sampleEntry ''n1'' ''n2'', sampleEntry ''n2'' ''n3'']))
       = JsonOk [sampleEntry ''n1'' ''n2'', sampleEntry ''n2'' ''n3'']"
    by (simp add: sampleEnv_def)
  have ids: "Set_new (map (\<lambda>e. channelId (node1_pubkey e) (node2_pubkey e))
       [sampleEntry ''n1'' ''n2'', sampleEntry ''n2'' ''n3'']) = [''n1-n2'', ''n2-n3'']"
    by (simp add: Set_new_def Set_add_def channelId_def sampleEntry_def)
  show ?thesis
    using first_snapshot_is_baseline[OF rej ok, of 30] rej ok ids by simp
qed

text \<open>
  Claim C9. After an accepted snapshot without channels, from any state, the baseline is
  empty and the first-load flag is cleared. The next accepted snapshot, whatever lies between
  them that was not accepted, is handled as a baseline: the channel events are reset to
  empty and the baseline becomes the ids of its channels.
\<close>
theorem empty_snapshot_makes_next_baseline:
  assumes "response env0 = JsonOk []" and "\<forall>e \<in> set envs. \<not> accepted e"
    and "response env = JsonOk data"
  shows "\<not> isFirstLoad (poll cap (fetchChannelsGeo cap st0 env0) envs)
       \<and> prevChannelsRef (poll cap (fetchChannelsGeo cap st0 env0) envs) = []
       \<and> channelEvents (fetchChannelsGeo cap (poll cap (fetchChannelsGeo cap st0 env0) envs) env) = []
       \<and> prevChannelsRef (fetchChannelsGeo cap (poll cap (fetchChannelsGeo cap st0 env0) envs) env)
           = Set_new (map (\<lambda>e. channelId (node1_pubkey e) (node2_pubkey e)) data)
       \<and> nodes (fetchChannelsGeo cap (poll cap (fetchChannelsGeo cap st0 env0) envs) env)
           = map snd (fst (buildGraph data ([], [])))
       \<and> channels (fetchChannelsGeo cap (poll cap (fetchChannelsGeo cap st0 env0) envs) env)
           = snd (buildGraph data ([], []))"
proof -
  let ?st1 = "poll cap (fetchChannelsGeo cap st0 env0) envs"
  have "prevChannelsRef (fetchChannelsGeo cap st0 env0) = [] \<and> \<not> isFirstLoad (fetchChannelsGeo cap st0 env0)"
    using fetch_accepted_baseline_set[OF assms(1), of cap st0] by (simp add: Set_new_Nil)
  then have st1: "prevChannelsRef ?st1 = []" "\<not> isFirstLoad ?st1"
    using poll_rejected[OF assms(2), of cap "fetchChannelsGeo cap st0 env0"] by simp_all
  then have "isFirstLoad ?st1 \<or> prevChannelsRef ?st1 = []" by simp
  from fetch_baseline[OF assms(3) this, of cap] st1 show ?thesis
    by simp
qed

theorem empty_snapshot_makes_next_baseline_witness:
  "response (sampleEnv (JsonOk [])) = JsonOk []
   \<and> \<not> accepted (sampleEnv (NotOk 503))
   \<and> response (sampleEnv (JsonOk [sampleEntry ''n2'' ''n3''])) = JsonOk [sampleEntry ''n2'' ''n3'']
   \<and> channelEvents (fetchChannelsGeo 30 sampleState (sampleEnv (JsonOk [])))
       = [\<lparr>ev_id = ''n1-n2'', ev_ts = 1000, ev_status = Closed\<rparr>]
   \<and> \<not> isFirstLoad (poll 30 (fetchChannelsGeo 30 sampleState (sampleEnv (JsonOk []))) [sampleEnv (NotOk 503)])
   \<and> channelEvents (fetchChannelsGeo 30
        (poll 30 (fetchChannelsGeo 30 sampleState (sampleEnv (JsonOk []))) [sampleEnv (NotOk 503)])
        (sampleEnv (JsonOk [sampleEntry ''n2'' ''n3'']))) = []
   \<and> prevChannelsRef (fetchChannelsGeo 30
        (poll 30 (fetchChannelsGeo 30 sampleState (sampleEnv (JsonOk []))) [sampleEnv (NotOk 503)])
        (sampleEnv (JsonOk [sampleEntry ''n2'' ''n3'']))) = [''n2-n3'']"
proof -
  have a: "response (sampleEnv (JsonOk [])) = JsonOk []"
    by (simp add: sampleEnv_def)
  have b: "\<forall>e \<in> set [sampleEnv (NotOk 503)]. \<not> accepted e"
    by (simp add: accepted_def sampleEnv_def)
  have c: "response (sampleEnv (JsonOk [sampleEntry ''n2'' ''n3''])) = JsonOk [sampleEntry ''n2'' ''n3'']"
    by (simp add: sampleEnv_def)
  have ev: "channelEvents (fetchChannelsGeo 30 sampleState (sampleEnv (JsonOk [])))
       = [\<lparr>ev_id = ''n1-n2'', ev_ts = 1000, ev_status = Closed\<rparr>]"
    by (simp add: fetchChannelsGeo_def sampleEnv_def sampleState_def Set_new_def detectBlock_def
          detectEvents_def limitEvents_def admitEvents_def slice_from_def log_line_def)
  have ids: "Set_new (map (\<lambda>e. channelId (node1_pubkey e) (node2_pubkey e)) [sampleEntry ''n2'' ''n3''])
       = [''n2-n3'']"
    by (simp add: Set_new_def Set_add_def channelId_def sampleEntry_def)
  show ?thesis
    using empty_snapshot_makes_next_baseline[OF a b c, of 30 sampleState] a b c ev ids by simp
qed

subsection \<open>The cap\<close>

text \<open>
  For a positive cap the limit and the updater keep the last \<open>cap\<close> entries, and the
  collection never holds more than \<open>cap\<close> events.
\<close>

lemma admitEvents_positive_cap:
  assumes "0 < cap"
  shows "admitEvents cap now prev newEvents =
           drop (length (filter (\<lambda>e. now - ev_ts e < 5000) prev @ newEvents) - nat cap)
             (filter (\<lambda>e. now - ev_ts e < 5000) prev @ newEvents)"
    and "int (length (admitEvents cap now prev newEvents)) \<le> cap"
  using assms by (simp_all add: admitEvents_def Let_def slice_from_neg)

lemma limitEvents_positive_cap:
  assumes "0 < cap" and "int (length newEvents) > cap"
  shows "limitEvents cap (newEvents, st) =
           (drop (length newEvents - nat cap) newEvents,
            log_line (WarningTooMany (length newEvents) cap) st)"
    and "length (fst (limitEvents cap (newEvents, st))) = nat cap"
  using assms by (simp_all add: limitEvents_def slice_from_neg)

lemma limitEvents_within_cap:
  "int (length newEvents) \<le> cap \<Longrightarrow> limitEvents cap (newEvents, st) = (newEvents, st)"
  by (simp add: limitEvents_def)

text \<open>
  Claim C3. With the cap set to zero the updater truncates nothing: \<^verbatim>\<open>slice(-0)\<close> is
  \<^verbatim>\<open>slice(0)\<close>, so the collection is the retained prior events followed by the new ones. A
  poll with cap 0 that sees the one known channel disappear leaves one pending event, more
  than the cap.
\<close>

theorem admission_with_cap_zero:
  "admitEvents 0 now prev newEvents = filter (\<lambda>e. now - ev_ts e < 5000) prev @ newEvents
   \<and> channelEvents (fetchChannelsGeo 0 sampleState (sampleEnv (JsonOk [])))
       = [\<lparr>ev_id = ''n1-n2'', ev_ts = 1000, ev_status = Closed\<rparr>]
   \<and> int (length (channelEvents (fetchChannelsGeo 0 sampleState (sampleEnv (JsonOk []))))) > 0"
proof -
  have a: "admitEvents 0 now prev newEvents = filter (\<lambda>e. now - ev_ts e < 5000) prev @ newEvents"
    by (simp add: admitEvents_def slice_from_zero)
  have b: "channelEvents (fetchChannelsGeo 0 sampleState (sampleEnv (JsonOk [])))
       = [\<lparr>ev_id = ''n1-n2'', ev_ts = 1000, ev_status = Closed\<rparr>]"
    by (simp add: fetchChannelsGeo_def sampleEnv_def sampleState_def Set_new_def detectBlock_def
          detectEvents_def limitEvents_def admitEvents_def slice_from_def log_line_def)
  from a b show ?thesis by simp
qed

text \<open>
  Claim C6. With the cap set to zero a pass that detected one event logs the warning that it
  limits to 0 and keeps the event.
\<close>

theorem limit_with_cap_zero:
  "limitEvents 0 ([e], st) = ([e], log_line (WarningTooMany 1 0) st)"
  by (simp add: limitEvents_def slice_from_zero)

subsection \<open>The sound cooldown\<close>

lemma spaced_snoc:
  "spaced cs \<Longrightarrow> list_all (\<lambda>c. c + 1000 < now) cs \<Longrightarrow> spaced (cs @ [now])"
  by (induction cs) simp_all

lemma spaced_window:
  "spaced cs \<Longrightarrow> length (filter (\<lambda>c. t \<le> c \<and> c \<le> t + 1000) cs) \<le> 1"
proof (induction cs)
  case Nil
  show ?case by simp
next
  case (Cons c cs)
  show ?case
  proof (cases "t \<le> c \<and> c \<le> t + 1000")
    case True
    have far: "\<forall>d \<in> set cs. c + 1000 < d"
      using Cons.prems by (simp add: list_all_iff)
    have "filter (\<lambda>d. t \<le> d \<and> d \<le> t + 1000) cs = []"
      unfolding filter_empty_conv
    proof
      fix d assume "d \<in> set cs"
      with far have "c + 1000 < d" by blast
      with True show "\<not> (t \<le> d \<and> d \<le> t + 1000)" by linarith
    qed
    then show ?thesis using True by simp
  next
    case False
    then have "filter (\<lambda>d. t \<le> d \<and> d \<le> t + 1000) (c # cs) = filter (\<lambda>d. t \<le> d \<and> d \<le> t + 1000) cs"
      by simp
    moreover have "spaced cs" using Cons.prems by simp
    ultimately show ?thesis using Cons.IH by simp
  qed
qed

lemma sound_inv_initial: "sound_inv initialSound"
  by (simp add: sound_inv_def initialSound_def)

lemma sound_inv_play: "sound_inv ss \<Longrightarrow> sound_inv (playLightningSound now ss)"
proof -
  assume inv: "sound_inv ss"
  show ?thesis
  proof (cases "now - lastSoundTime ss > 1000")
    case True
    have "list_all (\<lambda>c. c + 1000 < now) (cues ss)"
      using inv True by (auto simp: sound_inv_def list_all_iff)
    moreover have "list_all (\<lambda>c. c \<le> now) (cues ss)"
      using inv True by (auto simp: sound_inv_def list_all_iff)
    ultimately show ?thesis
      using inv True by (simp add: sound_inv_def playLightningSound_def spaced_snoc)
  next
    case False
    then show ?thesis using inv by (simp add: playLightningSound_def)
  qed
qed

lemma eventIdSection_sound:
  "fst (eventIdSection pr nodeMap now ss) = ss
   \<or> fst (eventIdSection pr nodeMap now ss) = playLightningSound now ss"
  by (simp add: eventIdSection_def split: option.splits)

lemma debugSection_sound:
  "fst (debugSection pr nps r1 r2 now ss) = ss
   \<or> fst (debugSection pr nps r1 r2 now ss) = playLightningSound now ss"
  by (simp add: debugSection_def split: option.splits prod.splits)

lemma batchSection_sound:
  "fst (batchSection pr nodeMap now ss) = ss
   \<or> fst (batchSection pr nodeMap now ss) = playLightningSound now ss"
  by (simp add: batchSection_def Let_def)

lemma sound_inv_renderEffect: "sound_inv ss \<Longrightarrow> sound_inv (fst (renderEffect ss pe))"
proof -
  assume inv: "sound_inv ss"
  obtain pr env where pe: "pe = (pr, env)" by (cases pe)
  let ?nps = "nodePositions (width env) (height env) (projection env) (p_nodes pr)"
  let ?s1 = "fst (eventIdSection pr (nodeMapOf ?nps) (now_single env) ss)"
  let ?s2 = "fst (debugSection pr ?nps (random1 env) (random2 env) (now_debug env) ?s1)"
  let ?s3 = "fst (batchSection pr (nodeMapOf ?nps) (now_batch env) ?s2)"
  have r: "fst (renderEffect ss pe) = (if svg_mounted env then ?s3 else ss)"
    by (simp add: renderEffect_def pe Let_def split: prod.splits)
  have 1: "sound_inv ?s1"
    using eventIdSection_sound[of pr "nodeMapOf ?nps" "now_single env" ss] inv sound_inv_play
    by metis
  have 2: "sound_inv ?s2"
    using debugSection_sound[of pr ?nps "random1 env" "random2 env" "now_debug env" ?s1] 1 sound_inv_play
    by metis
  have 3: "sound_inv ?s3"
    using batchSection_sound[of pr "nodeMapOf ?nps" "now_batch env" ?s2] 2 sound_inv_play
    by metis
  show ?thesis unfolding r using 3 inv by simp
qed

lemma sound_inv_renders: "sound_inv ss \<Longrightarrow> sound_inv (renders ss pes)"
proof (induction pes arbitrary: ss)
  case Nil
  then show ?case by (simp add: renders_def)
next
  case (Cons pe pes)
  have "renders ss (pe # pes) = renders (fst (renderEffect ss pe)) pes"
    by (simp add: renders_def)
  then show ?case using Cons sound_inv_renderEffect by simp
qed

lemma playLightningSound_cues:
  "cues (playLightningSound now ss) = cues ss \<or> cues (playLightningSound now ss) = cues ss @ [now]"
  by (simp add: playLightningSound_def)

text \<open>
  Claim C4. After any sequence of runs of the drawing effect, started with no sound played,
  every closed interval of 1000 ms of clock readings holds at most one of the cues. Each of
  the three places that ask for the sound asks at most once in a run: the batch adds at most
  one cue however many events it draws, and so do the single channel event and the debug
  trigger. A request made no more than 1000 ms after the time kept in the ref changes
  nothing, and once a cue has been played that time is the time of the last cue.
\<close>

theorem one_cue_per_window:
  "length (filter (\<lambda>c. t \<le> c \<and> c \<le> t + 1000) (cues (renders initialSound pes))) \<le> 1
   \<and> (cues (fst (batchSection pr nodeMap now ss)) = cues ss
        \<or> cues (fst (batchSection pr nodeMap now ss)) = cues ss @ [now])
   \<and> (cues (fst (eventIdSection pr nodeMap now ss)) = cues ss
        \<or> cues (fst (eventIdSection pr nodeMap now ss)) = cues ss @ [now])
   \<and> (cues (fst (debugSection pr nps r1 r2 now ss)) = cues ss
        \<or> cues (fst (debugSection pr nps r1 r2 now ss)) = cues ss @ [now])
   \<and> (now - lastSoundTime ss \<le> 1000 \<longrightarrow> playLightningSound now ss = ss)
   \<and> (cues (renders initialSound pes) \<noteq> [] \<longrightarrow>
        lastSoundTime (renders initialSound pes) = last (cues (renders initialSound pes)))"
proof -
  have inv: "sound_inv (renders initialSound pes)"
    using sound_inv_initial by (rule sound_inv_renders)
  then have "spaced (cues (renders initialSound pes))"
    by (simp add: sound_inv_def)
  then have window: "length (filter (\<lambda>c. t \<le> c \<and> c \<le> t + 1000) (cues (renders initialSound pes))) \<le> 1"
    by (rule spaced_window)
  have batch: "cues (fst (batchSection pr nodeMap now ss)) = cues ss
        \<or> cues (fst (batchSection pr nodeMap now ss)) = cues ss @ [now]"
    using batchSection_sound[of pr nodeMap now ss] playLightningSound_cues[of now ss] by metis
  have single: "cues (fst (eventIdSection pr nodeMap now ss)) = cues ss
        \<or> cues (fst (eventIdSection pr nodeMap now ss)) = cues ss @ [now]"
    using eventIdSection_sound[of pr nodeMap now ss] playLightningSound_cues[of now ss] by metis
  have debug: "cues (fst (debugSection pr nps r1 r2 now ss)) = cues ss
        \<or> cues (fst (debugSection pr nps r1 r2 now ss)) = cues ss @ [now]"
    using debugSection_sound[of pr nps r1 r2 now ss] playLightningSound_cues[of now ss] by metis
  have quiet: "now - lastSoundTime ss \<le> 1000 \<longrightarrow> playLightningSound now ss = ss"
    by (simp add: playLightningSound_def)
  have latest: "cues (renders initialSound pes) \<noteq> [] \<longrightarrow>
        lastSoundTime (renders initialSound pes) = last (cues (renders initialSound pes))"
    using inv by (simp add: sound_inv_def)
  from window batch single debug quiet latest show ?thesis by blast
qed

lemma sample_renders:
  "renders initialSound [(sampleProps sampleBurst, sampleRenderEnv 5000),
                         (sampleProps sampleBurst, sampleRenderEnv 5600)]
     = \<lparr>lastSoundTime = 5000, cues = [5000]\<rparr>"
  by (simp add: renders_def renderEffect_def eventIdSection_def debugSection_def batchSection_def
        sampleProps_def sampleRenderEnv_def sampleBurst_def initialSound_def playLightningSound_def
        nodePositions_def nodeMapOf_def slice_from_def Let_def)

theorem one_cue_per_window_witness:
  "cues (renders initialSound [(sampleProps sampleBurst, sampleRenderEnv 5000),
                               (sampleProps sampleBurst, sampleRenderEnv 5600)]) = [5000]
   \<and> 5600 - lastSoundTime \<lparr>lastSoundTime = 5000, cues = [5000]\<rparr> \<le> (1000 :: int)
   \<and> playLightningSound 5600 \<lparr>lastSoundTime = 5000, cues = [5000]\<rparr>
        = \<lparr>lastSoundTime = 5000, cues = [5000]\<rparr>
   \<and> lastSoundTime (renders initialSound [(sampleProps sampleBurst, sampleRenderEnv 5000),
                               (sampleProps sampleBurst, sampleRenderEnv 5600)]) = 5000
   \<and> length (filter (\<lambda>c. 4700 \<le> c \<and> c \<le> 4700 + 1000)
        (cues (renders initialSound [(sampleProps sampleBurst, sampleRenderEnv 5000),
                               (sampleProps sampleBurst, sampleRenderEnv 5600)]))) \<le> 1"
proof -
  let ?pes = "[(sampleProps sampleBurst, sampleRenderEnv 5000),
               (sampleProps sampleBurst, sampleRenderEnv 5600)]"
  let ?ss = "\<lparr>lastSoundTime = 5000, cues = [5000 :: int]\<rparr>"
  note all = one_cue_per_window[of 4700 ?pes "sampleProps sampleBurst" Map.empty 5600 ?ss "[]" sampleHalf sampleHalf]
  have c: "cues (renders initialSound ?pes) = [5000]" by (simp add: sample_renders)
  have h: "5600 - lastSoundTime ?ss \<le> 1000" by simp
  from all h have quiet: "playLightningSound 5600 ?ss = ?ss" by blast
  from all c have latest: "lastSoundTime (renders initialSound ?pes) = 5000" by simp
  from all have window: "length (filter (\<lambda>c. 4700 \<le> c \<and> c \<le> 4700 + 1000)
        (cues (renders initialSound ?pes))) \<le> 1" by blast
  from c h quiet latest window show ?thesis by blast
qed

subsection \<open>The debug lightning\<close>





text \<open>
  Where the product needs no rounding the index is the floor of the exact product. Where it
  does, the two can differ: for the sample \<open>1228254443828317 / 2 ^ 52\<close> and 11 nodes the
  double product is a tie that rounds up to 3, while the exact product is below 3.
\<close>

lemma floorTimes_exact:
  assumes "mant r * n < 2 ^ 53"
  shows "floorTimes r n = floor (real (mant r) / 2 ^ expo r * real n)"
proof -
  have "floorTimes r n = int ((mant r * n) div 2 ^ expo r)"
    using assms by (simp add: floorTimes_def round53_def)
  also have "\<dots> = floor (real (mant r * n) / real (2 ^ expo r))"
    by (simp only: floor_divide_of_nat_eq)
  finally show ?thesis by simp
qed

lemma floorlog_of_tie: "floorlog 2 13510798882111487 = 54"
proof -
  have "floorlog 2 13510798882111487 \<le> 54"
    by (simp add: floorlog_le_iff)
  moreover have "54 \<le> floorlog 2 13510798882111487"
    using floorlog_ge_SucI[of 2 53 13510798882111487] by simp
  ultimately show ?thesis by simp
qed

lemma round53_of_tie: "round53 13510798882111487 = 13510798882111488"
  by (simp add: round53_def floorlog_of_tie)

lemma floorTimes_rounds_tie_up:
  "isRandom \<lparr>mant = 1228254443828317, expo = 52\<rparr>
   \<and> floorTimes \<lparr>mant = 1228254443828317, expo = 52\<rparr> 11 = 3
   \<and> floor ((1228254443828317 / 2 ^ 52 :: real) * 11) = 2"
  by (simp add: isRandom_def floorTimes_def round53_of_tie)






text \<open>
  The debug section keeps no record of the trigger value it has served: it tests that the
  value is positive, not that it has changed. A second run of the effect with the same
  trigger value, as any change of the nodes, the channels, the channel events or the window
  size causes, draws a debug lightning again.
\<close>

lemma debug_lightning_drawn_again:
  "snd (renderEffect initialSound (debugRun 5000))
     = [\<lparr>l_from = (430, 260), l_to = (450, 240), l_stroke = Yellow\<rparr>]
   \<and> snd (renderEffect (fst (renderEffect initialSound (debugRun 5000))) (debugRun 5400))
     = [\<lparr>l_from = (430, 260), l_to = (450, 240), l_stroke = Yellow\<rparr>]"
  by (simp add: renderEffect_def debugRun_def threeNodes_def sampleNode_def shiftProjection_def
        sampleHalf_def sampleThreeQuarters_def nodePositions_def nodePosition_def nodeMapOf_def
        eventIdSection_def debugSection_def debugIndices_def floorTimes_def round53_def
        js_mod_def at_index_def batchSection_def playLightningSound_def initialSound_def Let_def)




subsection \<open>Node positions\<close>

text \<open>
  A node without geo data, or one the projection cannot place, is drawn at the centre of the
  canvas; any other node is drawn where the projection puts its longitude and latitude.
\<close>

lemma nodePosition_without_geo:
  "node_geo n = None \<Longrightarrow> nodePosition w h proj n = (w / 2, h / 2)"
  by (simp add: nodePosition_def)

lemma nodePosition_unprojectable:
  "node_geo n = Some g \<Longrightarrow> proj (lon g, lat g) = None \<Longrightarrow> nodePosition w h proj n = (w / 2, h / 2)"
  by (simp add: nodePosition_def)

lemma nodePosition_projected:
  "node_geo n = Some g \<Longrightarrow> proj (lon g, lat g) = Some p \<Longrightarrow> nodePosition w h proj n = p"
  by (simp add: nodePosition_def)

end
